theory Spec2Isabelle
  imports
    Complex_Main
    "HOL-Library.Multiset"
    "HOL-Library.AList"
    "HOL-Library.Char_ord"
    "HOL-Library.List_Lexorder"
begin

section \<open>Music bingo: the ticket engine of BingoLogic.ts and GameContext.tsx\<close>

text \<open>
  The development embeds three pieces of the repository:
  \<^item> \<open>BingoGameLogic.combinations\<close> and \<open>calculateSafeMax\<close> (the bound calculator),
  \<^item> \<open>BingoGameLogic.generateTicket\<close> and the batch loop of \<open>generateTickets\<close> in
    the game context (the ticket generator),
  \<^item> \<open>BingoGameLogic.checkWins\<close> (the win evaluator).

  JavaScript numbers that the code uses as integers (\<open>n\<close>, \<open>r\<close>, \<open>gridSize\<close>,
  \<open>count\<close>) are \<open>int\<close>. The running product of \<open>combinations\<close> is a \<open>rat\<close>,
  since the source divides with \<open>/\<close>. On integer arguments the double arithmetic of
  the source agrees with it: a product is formed only while the running value is at
  most 1,000,000, for \<open>n\<close> above 1,000,000 the first iteration already exceeds the
  cap, and otherwise every product stays below \<open>10\<^sup>1\<^sup>2\<close> and every quotient is a
  binomial coefficient, so all values are integers that doubles hold exactly.
\<close>

subsection \<open>The bound calculator\<close>

text \<open>
  The \<open>for (let i = 1; i <= r; i++)\<close> loop of \<open>combinations\<close>, with its early
  \<open>return 1_000_000\<close> and the final \<open>Math.floor(res)\<close>.
\<close>

function comb_loop :: "int \<Rightarrow> int \<Rightarrow> int \<Rightarrow> rat \<Rightarrow> int" where
  "comb_loop n r i res =
     (if i \<le> r then
        (let res' = res * of_int (n - i + 1) / of_int i
         in if res' > 1000000 then 1000000 else comb_loop n r (i + 1) res')
      else \<lfloor>res\<rfloor>)"
  by pat_completeness auto
termination
  by (relation "measure (\<lambda>(n, r, i, res). nat (r + 1 - i))") auto

declare comb_loop.simps [simp del]

definition combinations :: "int \<Rightarrow> int \<Rightarrow> int" where
  "combinations n r =
     (if r < 0 \<or> r > n then 0
      else if r = 0 \<or> r = n then 1
      else (let r' = (if (of_int r :: rat) > of_int n / 2 then n - r else r)
            in comb_loop n r' 1 1))"

text \<open>
  \<open>calculateSafeMax\<close>, with \<open>requiredSongs\<close> the exact square of \<open>gridSize\<close>. The
  double product of the source is the same number for \<open>gridSize\<^sup>2 \<le> 2\<^sup>5\<^sup>3\<close>; for a
  \<open>catalogSize\<close> that is an array length the test \<open>catalogSize < requiredSongs\<close> comes
  out the same beyond that as well.
\<close>

definition calculateSafeMax :: "int \<Rightarrow> int \<Rightarrow> int" where
  "calculateSafeMax catalogSize gridSize =
     (let requiredSongs = gridSize * gridSize
      in if catalogSize < requiredSongs then 0
         else combinations catalogSize requiredSongs)"

subsection \<open>Data model\<close>

text \<open>
  \<open>Song\<close>, \<open>BingoGridCell\<close> and \<open>BingoTicket\<close> of BingoLogic.ts. The field \<open>id\<close> of
  a song and of a ticket is \<open>song_id\<close> and \<open>ticket_id\<close> here (\<open>id\<close> is HOL's identity
  function). The optional playback fields of a song (duration, cues, bitrate, ...) are
  not read by any function embedded here and are left out.

  A cell's \<open>song\<close> is an option: \<open>None\<close> is JavaScript's \<open>undefined\<close>, which the array
  read \<open>selectedSongs[songIndex]\<close> of \<open>generateTicket\<close> yields past the end of the
  array. A ticket's \<open>grid\<close> is an option as well: \<open>checkWins\<close> tests \<open>!grid\<close>, so
  \<open>None\<close> stands for a \<open>null\<close> or \<open>undefined\<close> grid.
\<close>

record Song =
  song_id :: string
  artist :: string
  title :: string
  filePath :: string

record BingoGridCell =
  song :: "Song option"
  marked :: bool

record BingoTicket =
  ticket_id :: string
  grid :: "BingoGridCell list list option"

text \<open>
  \<open>WinType\<close>: the literals \<open>'1_LINE'\<close>, \<open>'2_LINES'\<close>, \<open>'FOUR_CORNERS'\<close>,
  \<open>'FULL_HOUSE'\<close> and \<open>null\<close>.
\<close>

datatype WinType = ONE_LINE | TWO_LINES | FOUR_CORNERS | FULL_HOUSE | WinNull

text \<open>
  Exceptions as values. \<open>Error m\<close> is \<open>new Error(m)\<close>; \<open>TypeError p\<close> is the error of
  reading property \<open>p\<close> of \<open>undefined\<close>. Both are instances of \<open>Error\<close>, and
  \<open>message\<close> is their \<open>.message\<close> (for the second, as the V8 engine words it).
\<close>

datatype js_error = Error string | TypeError string

fun message :: "js_error \<Rightarrow> string" where
  "message (Error m) = m"
| "message (TypeError p) =
     ''Cannot read properties of undefined (reading '' @ [CHR 0x27] @ p @ [CHR 0x27] @ '')''"

definition bindE :: "js_error + 'a \<Rightarrow> ('a \<Rightarrow> js_error + 'b) \<Rightarrow> js_error + 'b" where
  "bindE m f = (case m of Inl e \<Rightarrow> Inl e | Inr x \<Rightarrow> f x)"

text \<open>
  The decimal rendering of an integer-valued number, as template literals and
  \<open>toString()\<close> produce it (for magnitudes below \<open>10\<^sup>2\<^sup>1\<close>, where JavaScript does not
  switch to exponent notation).
\<close>

definition digit_char :: "nat \<Rightarrow> char" where
  "digit_char d = ''0123456789'' ! d"

function nat_toString :: "nat \<Rightarrow> string" where
  "nat_toString n =
     (if n < 10 then [digit_char n]
      else nat_toString (n div 10) @ [digit_char (n mod 10)])"
  by pat_completeness auto
termination
  by (relation "measure (\<lambda>n. n)") auto

declare nat_toString.simps [simp del]

definition toString :: "int \<Rightarrow> string" where
  "toString i = (if i < 0 then CHR ''-'' # nat_toString (nat (- i)) else nat_toString (nat i))"

subsection \<open>generateTicket\<close>

text \<open>An array read \<open>xs[i]\<close>: \<open>undefined\<close> past the end.\<close>

definition array_get :: "'a list \<Rightarrow> nat \<Rightarrow> 'a option" where
  "array_get xs i = (if i < length xs then Some (xs ! i) else None)"

text \<open>
  The two nested \<open>for\<close> loops that fill the grid. The first numeric argument is the
  number of iterations still to run (\<open>gridSize - c\<close>, \<open>gridSize - r\<close>); \<open>songIndex\<close>
  is the running counter of the source, returned by the inner loop to the outer one.
\<close>

primrec fill_row :: "Song list \<Rightarrow> nat \<Rightarrow> nat \<Rightarrow> BingoGridCell list \<times> nat" where
  "fill_row selectedSongs 0 songIndex = ([], songIndex)"
| "fill_row selectedSongs (Suc k) songIndex =
     (let cell = \<lparr>song = array_get selectedSongs songIndex, marked = False\<rparr>;
          (row, songIndex') = fill_row selectedSongs k (Suc songIndex)
      in (cell # row, songIndex'))"

primrec fill_grid :: "Song list \<Rightarrow> nat \<Rightarrow> nat \<Rightarrow> nat \<Rightarrow> BingoGridCell list list" where
  "fill_grid selectedSongs gridSize 0 songIndex = []"
| "fill_grid selectedSongs gridSize (Suc k) songIndex =
     (let (row, songIndex') = fill_row selectedSongs gridSize songIndex
      in row # fill_grid selectedSongs gridSize k songIndex')"

text \<open>
  \<open>generateTicket\<close>. Its two sources of randomness are parameters: \<open>shuffle\<close> is the
  effect of \<open>[...catalog].sort(() => 0.5 - Math.random())\<close> on the copied catalog, and
  \<open>uuidv4\<close> is the identifier \<open>uuidv4()\<close> would return. The optional argument \<open>id\<close>
  is \<open>id_arg\<close>; \<open>id || uuidv4()\<close> falls back to the uuid for a missing or empty id.

  \<open>requiredSongs\<close> is the exact square of \<open>gridSize\<close>. The source multiplies doubles,
  which gives the same number whenever \<open>gridSize\<^sup>2 \<le> 2\<^sup>5\<^sup>3\<close>. Beyond that the product is
  rounded: the comparison with the array length still comes out the same (an array
  length is below \<open>2\<^sup>3\<^sup>2\<close> and rounding is monotone), but the number printed in the
  error message differs, so statements about the text of the message carry the bound.
\<close>

definition generateTicket ::
  "(Song list \<Rightarrow> Song list) \<Rightarrow> string \<Rightarrow> Song list \<Rightarrow> int \<Rightarrow> string option
   \<Rightarrow> js_error + BingoTicket" where
  "generateTicket shuffle uuidv4 catalog gridSize id_arg =
     (let requiredSongs = gridSize * gridSize in
      if int (length catalog) < requiredSongs then
        Inl (Error (''Catalog must have at least '' @ toString requiredSongs @
                    '' songs to generate a '' @ toString gridSize @ ''x'' @
                    toString gridSize @ '' ticket.''))
      else
        (let shuffled = shuffle catalog;
             selectedSongs = take (nat requiredSongs) shuffled;
             rows = fill_grid selectedSongs (nat gridSize) (nat gridSize) 0
         in Inr \<lparr>ticket_id = (case id_arg of
                                  None \<Rightarrow> uuidv4
                                | Some s \<Rightarrow> if s = [] then uuidv4 else s),
                  grid = Some rows\<rparr>))"

subsection \<open>checkWins\<close>

text \<open>\<open>cell.song.id\<close> and \<open>grid[r][c].song.id\<close>, with the TypeError of reading through
  \<open>undefined\<close>.\<close>

definition cell_song_id :: "BingoGridCell \<Rightarrow> js_error + string" where
  "cell_song_id cell =
     (case song cell of None \<Rightarrow> Inl (TypeError ''id'') | Some s \<Rightarrow> Inr (song_id s))"

definition grid_song_id :: "BingoGridCell list list \<Rightarrow> nat \<Rightarrow> nat \<Rightarrow> js_error + string" where
  "grid_song_id g r c =
     (if r < length g then
        (if c < length (g ! r) then cell_song_id (g ! r ! c)
         else Inl (TypeError ''song''))
      else Inl (TypeError (toString (int c))))"

text \<open>\<open>row.every(cell => playedSongIds.has(cell.song.id))\<close>: stops at the first cell
  that is not played.\<close>

fun row_every :: "string set \<Rightarrow> BingoGridCell list \<Rightarrow> js_error + bool" where
  "row_every playedSongIds [] = Inr True"
| "row_every playedSongIds (cell # cells) =
     (case cell_song_id cell of
        Inl e \<Rightarrow> Inl e
      | Inr i \<Rightarrow> if i \<in> playedSongIds then row_every playedSongIds cells else Inr False)"

text \<open>The row loop, with its counter \<open>horizontalLines\<close>.\<close>

fun rows_loop :: "string set \<Rightarrow> BingoGridCell list list \<Rightarrow> nat \<Rightarrow> js_error + nat" where
  "rows_loop playedSongIds [] horizontalLines = Inr horizontalLines"
| "rows_loop playedSongIds (row # rest) horizontalLines =
     (case row_every playedSongIds row of
        Inl e \<Rightarrow> Inl e
      | Inr b \<Rightarrow> rows_loop playedSongIds rest
                 (if b then horizontalLines + 1 else horizontalLines))"

text \<open>
  A loop over grid positions that breaks at the first position not played: the inner
  column loop and the two diagonal loops.
\<close>

fun line_complete ::
  "string set \<Rightarrow> BingoGridCell list list \<Rightarrow> (nat \<times> nat) list \<Rightarrow> js_error + bool" where
  "line_complete playedSongIds g [] = Inr True"
| "line_complete playedSongIds g ((r, c) # rest) =
     (case grid_song_id g r c of
        Inl e \<Rightarrow> Inl e
      | Inr i \<Rightarrow> if i \<in> playedSongIds then line_complete playedSongIds g rest
                 else Inr False)"

text \<open>The column loop over \<open>c = 0, ..., cols - 1\<close>, with its counter \<open>verticalLines\<close>.\<close>

fun cols_loop ::
  "string set \<Rightarrow> BingoGridCell list list \<Rightarrow> nat list \<Rightarrow> nat \<Rightarrow> js_error + nat" where
  "cols_loop playedSongIds g [] verticalLines = Inr verticalLines"
| "cols_loop playedSongIds g (c # cs) verticalLines =
     (case line_complete playedSongIds g (map (\<lambda>r. (r, c)) [0..<length g]) of
        Inl e \<Rightarrow> Inl e
      | Inr colComplete \<Rightarrow> cols_loop playedSongIds g cs
                 (if colComplete then verticalLines + 1 else verticalLines))"

definition diagonal_lines ::
  "string set \<Rightarrow> BingoGridCell list list \<Rightarrow> nat \<Rightarrow> nat \<Rightarrow> js_error + nat" where
  "diagonal_lines playedSongIds g rows cols =
     (if rows = cols then
        bindE (line_complete playedSongIds g (map (\<lambda>i. (i, i)) [0..<rows]))
          (\<lambda>diag1Complete.
        bindE (line_complete playedSongIds g (map (\<lambda>i. (i, rows - 1 - i)) [0..<rows]))
          (\<lambda>diag2Complete.
        Inr ((if diag1Complete then 1 else 0) + (if diag2Complete then 1 else 0))))
      else Inr 0)"

definition four_corners ::
  "string set \<Rightarrow> BingoGridCell list list \<Rightarrow> nat \<Rightarrow> nat \<Rightarrow> js_error + bool" where
  "four_corners playedSongIds g rows cols =
     (if rows \<ge> 2 \<and> cols \<ge> 2 then
        bindE (grid_song_id g 0 0) (\<lambda>topLeft.
        bindE (grid_song_id g 0 (cols - 1)) (\<lambda>topRight.
        bindE (grid_song_id g (rows - 1) 0) (\<lambda>bottomLeft.
        bindE (grid_song_id g (rows - 1) (cols - 1)) (\<lambda>bottomRight.
        Inr (topLeft \<in> playedSongIds \<and> topRight \<in> playedSongIds \<and>
             bottomLeft \<in> playedSongIds \<and> bottomRight \<in> playedSongIds)))))
      else Inr False)"

text \<open>\<open>grid.every(row => row.every(...))\<close>: stops at the first incomplete row.\<close>

fun grid_every :: "string set \<Rightarrow> BingoGridCell list list \<Rightarrow> js_error + bool" where
  "grid_every playedSongIds [] = Inr True"
| "grid_every playedSongIds (row # rest) =
     (case row_every playedSongIds row of
        Inl e \<Rightarrow> Inl e
      | Inr b \<Rightarrow> if b then grid_every playedSongIds rest else Inr False)"

definition checkWins :: "BingoTicket \<Rightarrow> string set \<Rightarrow> js_error + WinType list" where
  "checkWins ticket playedSongIds =
     (case grid ticket of
        None \<Rightarrow> Inr []
      | Some [] \<Rightarrow> Inr []
      | Some (row0 # rest) \<Rightarrow>
          (let g = row0 # rest; rows = length g; cols = length row0 in
           bindE (rows_loop playedSongIds g 0) (\<lambda>horizontalLines.
           bindE (cols_loop playedSongIds g [0..<cols] 0) (\<lambda>verticalLines.
           bindE (diagonal_lines playedSongIds g rows cols) (\<lambda>diagonalLines.
           (let totalLines = horizontalLines + verticalLines + diagonalLines in
           bindE (four_corners playedSongIds g rows cols) (\<lambda>fourCorners.
           bindE (grid_every playedSongIds g) (\<lambda>allMarked.
           Inr ((if totalLines \<ge> 1 then [ONE_LINE] else []) @
                (if totalLines \<ge> 2 then [TWO_LINES] else []) @
                (if fourCorners then [FOUR_CORNERS] else []) @
                (if allMarked then [FULL_HOUSE] else []))))))))))"

text \<open>
  The completed-line count as the specification words it: complete rows, plus complete
  columns, plus complete diagonals (none unless the grid is square). A cell counts as
  played when it holds a song whose id is in the played set.
\<close>

definition cell_played :: "string set \<Rightarrow> BingoGridCell \<Rightarrow> bool" where
  "cell_played played cell =
     (case song cell of None \<Rightarrow> False | Some s \<Rightarrow> song_id s \<in> played)"

definition complete_rows :: "string set \<Rightarrow> BingoGridCell list list \<Rightarrow> nat" where
  "complete_rows played g = length (filter (list_all (cell_played played)) g)"

definition complete_columns :: "string set \<Rightarrow> BingoGridCell list list \<Rightarrow> nat" where
  "complete_columns played g =
     length (filter (\<lambda>c. list_all (\<lambda>row. cell_played played (row ! c)) g)
               [0..<length (hd g)])"

definition complete_diagonals :: "string set \<Rightarrow> BingoGridCell list list \<Rightarrow> nat" where
  "complete_diagonals played g =
     (if length g = length (hd g) then
        (if list_all (\<lambda>i. cell_played played (g ! i ! i)) [0..<length g] then 1 else 0) +
        (if list_all (\<lambda>i. cell_played played (g ! i ! (length g - 1 - i))) [0..<length g]
         then 1 else 0)
      else 0)"

definition total_completed_lines :: "string set \<Rightarrow> BingoGridCell list list \<Rightarrow> nat" where
  "total_completed_lines played g =
     complete_rows played g + complete_columns played g + complete_diagonals played g"

text \<open>
  A rectangular grid with \<open>cols\<close> columns all of whose cells hold a song, which is
  what the type \<open>BingoGridCell[][]\<close> promises of a ticket.
\<close>

definition wf_grid :: "BingoGridCell list list \<Rightarrow> nat \<Rightarrow> bool" where
  "wf_grid g cols =
     ((\<forall>row\<in>set g. length row = cols) \<and> (\<forall>row\<in>set g. \<forall>c\<in>set row. song c \<noteq> None))"

subsection \<open>generateTickets\<close>

text \<open>
  The signature of a ticket,
  \<open>ticket.grid.flat().map(c => c.song.id).sort().join(',')\<close>, in its stages. The
  default \<open>sort()\<close> orders strings by their code units, which is the lexicographic order
  on \<open>string\<close>.
\<close>

fun map_song_id :: "BingoGridCell list \<Rightarrow> js_error + string list" where
  "map_song_id [] = Inr []"
| "map_song_id (c # cs) =
     (case cell_song_id c of
        Inl e \<Rightarrow> Inl e
      | Inr i \<Rightarrow> (case map_song_id cs of Inl e \<Rightarrow> Inl e | Inr ids \<Rightarrow> Inr (i # ids)))"

definition sorted_song_ids :: "BingoTicket \<Rightarrow> js_error + string list" where
  "sorted_song_ids ticket =
     (case grid ticket of
        None \<Rightarrow> Inl (TypeError ''flat'')
      | Some g \<Rightarrow> bindE (map_song_id (concat g)) (\<lambda>ids. Inr (sort ids)))"

fun join :: "string \<Rightarrow> string list \<Rightarrow> string" where
  "join sep [] = []"
| "join sep [x] = x"
| "join sep (x # y # ys) = x @ sep @ join sep (y # ys)"

definition songIds_key :: "BingoTicket \<Rightarrow> js_error + string" where
  "songIds_key ticket = bindE (sorted_song_ids ticket) (\<lambda>ids. Inr (join '','' ids))"

definition maxAttempts :: nat where
  "maxAttempts = 200"

text \<open>
  The random source of one call of \<open>generateTickets\<close>: the \<open>k\<close>-th call of
  \<open>generateTicket\<close> draws the shuffle and the uuid \<open>rnd k\<close>. The argument \<open>count'\<close> of the loops is the
  requested \<open>count\<close>. The loops thread the
  number of draws made so far, which is the number of shuffle-and-check operations.
\<close>

type_synonym random_source = "nat \<Rightarrow> (Song list \<Rightarrow> Song list) \<times> string"

text \<open>
  How the \<open>while (attempts < maxAttempts)\<close> loop of slot \<open>i\<close> ends: by \<open>break\<close> with
  a ticket of a new signature, by its condition (then \<open>attempts === maxAttempts\<close>), or
  in the \<open>catch\<close> block.
\<close>

datatype slot_exit = Unique BingoTicket string | Exhausted | Thrown js_error

function attempts_loop ::
  "random_source \<Rightarrow> Song list \<Rightarrow> int \<Rightarrow> nat \<Rightarrow> string set \<Rightarrow> nat \<Rightarrow> nat \<Rightarrow> slot_exit \<times> nat" where
  "attempts_loop rnd songsToUse gridSize i generatedSets attempts draws =
     (if attempts < maxAttempts then
        (case generateTicket (fst (rnd draws)) (snd (rnd draws)) songsToUse gridSize
                (Some (toString (int i + 1))) of
           Inl e \<Rightarrow> (Thrown e, Suc draws)
         | Inr ticket \<Rightarrow>
             (case songIds_key ticket of
                Inl e \<Rightarrow> (Thrown e, Suc draws)
              | Inr songIds \<Rightarrow>
                  if songIds \<notin> generatedSets then (Unique ticket songIds, Suc draws)
                  else attempts_loop rnd songsToUse gridSize i generatedSets
                         (attempts + 1) (Suc draws)))
      else (Exhausted, draws))"
  by pat_completeness auto
termination
  by (relation "measure (\<lambda>(rnd, songsToUse, gridSize, i, generatedSets, attempts, draws).
                            maxAttempts - attempts)") auto

declare attempts_loop.simps [simp del]

definition exhausted_message :: "nat \<Rightarrow> string" where
  "exhausted_message n =
     ''Could not generate the requested number of unique tickets due to high chance of duplicates. ''
     @ toString (int n) @ '' were created successfully.''"

text \<open>
  How the \<open>for (let i = 0; i < count; i++)\<close> loop ends: \<open>Returned m d\<close> is the
  \<open>return\<close> of the \<open>catch\<close> block after \<open>alert(m)\<close>, which stores nothing;
  \<open>Completed newTickets alerts d\<close> is the loop running out or its \<open>break\<close>, after
  which \<open>newTickets\<close> is stored. \<open>d\<close> is the number of draws made. \<open>newTickets\<close> is
  the \<open>Map\<close> from ticket id to ticket, in insertion order; \<open>Map.set\<close> replaces the
  value of a key already present and appends a new key, as \<open>AList.update\<close> does.
  Every exception the try block can raise is an \<open>Error\<close>, so the catch block always
  shows its message; \<open>console.error\<close> is not modelled.
\<close>

datatype batch_exit =
  Returned string nat
| Completed "(string \<times> BingoTicket) list" "string list" nat

function tickets_loop ::
  "random_source \<Rightarrow> Song list \<Rightarrow> int \<Rightarrow> int \<Rightarrow> nat \<Rightarrow> (string \<times> BingoTicket) list
   \<Rightarrow> string set \<Rightarrow> nat \<Rightarrow> batch_exit" where
  "tickets_loop rnd songsToUse gridSize count' i newTickets generatedSets draws =
     (if int i < count' then
        (case attempts_loop rnd songsToUse gridSize i generatedSets 0 draws of
           (Thrown e, draws') \<Rightarrow> Returned (message e) draws'
         | (Unique ticket songIds, draws') \<Rightarrow>
             tickets_loop rnd songsToUse gridSize count' (Suc i)
               (AList.update (ticket_id ticket) ticket newTickets)
               (insert songIds generatedSets) draws'
         | (Exhausted, draws') \<Rightarrow>
             Completed newTickets [exhausted_message (length newTickets)] draws')
      else Completed newTickets [] draws)"
  by pat_completeness auto
termination
  by (relation "measure (\<lambda>(rnd, songsToUse, gridSize, count', i, newTickets, generatedSets,
                             draws). nat (count' - int i))") auto

declare tickets_loop.simps [simp del]

text \<open>
  The part of the React state that \<open>generateTickets\<close> reads and writes, and the
  messages it shows with \<open>alert\<close>, in order. \<open>selectedSongIds.size > 0\<close> is
  \<open>selectedSongIds \<noteq> {}\<close>. \<open>setTickets\<close> and \<open>setGameCatalog\<close> replace the two
  fields; a call that returns early leaves them as they were.
\<close>

record GameState =
  songs :: "Song list"
  selectedSongIds :: "string set"
  gridSize :: int
  tickets :: "(string \<times> BingoTicket) list"
  gameCatalog :: "Song list"
  alerts :: "string list"

definition no_songs_message :: string where
  "no_songs_message =
     ''No songs available for ticket generation. Please select songs or load a music folder.''"

definition too_many_message :: "int \<Rightarrow> int \<Rightarrow> nat \<Rightarrow> int \<Rightarrow> string" where
  "too_many_message count' safeMax available g =
     ''You requested '' @ toString count' @ '' tickets, but only '' @ toString safeMax @
     '' unique tickets can be generated with '' @ toString (int available) @
     '' selected songs and grid size '' @ toString g @ ''. Please request '' @
     toString safeMax @ '' or fewer.''"

definition songsToUse_of :: "GameState \<Rightarrow> Song list" where
  "songsToUse_of st =
     (if selectedSongIds st \<noteq> {}
      then filter (\<lambda>s. song_id s \<in> selectedSongIds st) (songs st)
      else songs st)"

definition generateTickets :: "random_source \<Rightarrow> int \<Rightarrow> GameState \<Rightarrow> GameState" where
  "generateTickets rnd count' st =
     (let songsToUse = songsToUse_of st in
      if length songsToUse = 0 then st\<lparr>alerts := alerts st @ [no_songs_message]\<rparr>
      else
        (let safeMax = calculateSafeMax (int (length songsToUse)) (gridSize st) in
         if count' > safeMax \<and> safeMax > 0 then
           st\<lparr>alerts := alerts st @
                 [too_many_message count' safeMax (length songsToUse) (gridSize st)]\<rparr>
         else
           (case tickets_loop rnd songsToUse (gridSize st) count' 0 [] {} 0 of
              Returned m d \<Rightarrow> st\<lparr>alerts := alerts st @ [m]\<rparr>
            | Completed newTickets shown d \<Rightarrow>
                st\<lparr>tickets := newTickets, gameCatalog := songsToUse,
                   alerts := alerts st @ shown\<rparr>)))"





text \<open>
  A batch with pairwise different song sets: the ticket ids are pairwise different,
  every ticket has a sorted sequence of song ids, and no two tickets of the batch have
  the same one.
\<close>

definition distinct_song_sets :: "(string \<times> BingoTicket) list \<Rightarrow> bool" where
  "distinct_song_sets tks =
     (distinct (map fst tks) \<and>
      distinct (map (\<lambda>e. sorted_song_ids (snd e)) tks) \<and>
      list_all (\<lambda>e. case sorted_song_ids (snd e) of Inl err \<Rightarrow> False | Inr ids \<Rightarrow> True) tks)"

text \<open>A message mentions a piece of text when the text occurs in it.\<close>

fun starts_with :: "string \<Rightarrow> string \<Rightarrow> bool" where
  "starts_with s [] = True"
| "starts_with [] (p # ps) = False"
| "starts_with (c # cs) (p # ps) = (c = p \<and> starts_with cs ps)"

fun mentions :: "string \<Rightarrow> string \<Rightarrow> bool" where
  "mentions [] p = (p = [])"
| "mentions (c # cs) p = (starts_with (c # cs) p \<or> mentions cs p)"

subsection \<open>Example data\<close>

definition mk_song :: "string \<Rightarrow> Song" where
  "mk_song s = \<lparr>song_id = s, artist = ''artist'', title = ''title'', filePath = ''/music''\<rparr>"

definition mk_cell :: "string \<Rightarrow> BingoGridCell" where
  "mk_cell s = \<lparr>song = Some (mk_song s), marked = False\<rparr>"

text \<open>
  A random source that never reorders, and one whose second draw regroups the first
  four songs and whose third draw reverses the catalog.
\<close>

definition identity_source :: random_source where
  "identity_source k = (\<lambda>xs. xs, ''uuid'')"

definition regrouping_source :: random_source where
  "regrouping_source k =
     (if k = 1 then (\<lambda>xs. rev (take 4 xs) @ drop 4 xs)
      else if k = 2 then rev else (\<lambda>xs. xs), ''uuid'')"

definition two_song_state :: "int \<Rightarrow> GameState" where
  "two_song_state g =
     \<lparr>songs = [mk_song ''a'', mk_song ''b''], selectedSongIds = {}, gridSize = g,
      tickets = [], gameCatalog = [], alerts = []\<rparr>"

definition grid_abcd :: "BingoGridCell list list" where
  "grid_abcd = [[mk_cell ''a'', mk_cell ''b''], [mk_cell ''c'', mk_cell ''d'']]"

definition five_song_state :: GameState where
  "five_song_state =
     \<lparr>songs = map mk_song [''a'', ''b'', ''c'', ''d'', ''e''], selectedSongIds = {}, gridSize = 2,
      tickets = [], gameCatalog = [], alerts = []\<rparr>"

definition ticket_abcd :: BingoTicket where
  "ticket_abcd = \<lparr>ticket_id = ''1'', grid = Some grid_abcd\<rparr>"

definition ticket_edcb :: BingoTicket where
  "ticket_edcb = \<lparr>ticket_id = ''2'',
                  grid = Some [[mk_cell ''e'', mk_cell ''d''], [mk_cell ''c'', mk_cell ''b'']]\<rparr>"

text \<open>A state with one song, a 2x2 grid and a ticket left from an earlier batch.\<close>

definition stale_state :: GameState where
  "stale_state =
     \<lparr>songs = [mk_song ''a''], selectedSongIds = {}, gridSize = 2,
      tickets = [(''1'', ticket_abcd)], gameCatalog = [], alerts = []\<rparr>"

section \<open>Properties of the bound calculator\<close>

text \<open>One loop step turns \<open>C(N, k)\<close> into \<open>C(N, k + 1)\<close>, exactly.\<close>

lemma binomial_step:
  assumes "k < N"
  shows "(of_nat (N choose k) :: rat) * of_int (int N - int k) / of_int (int k + 1)
         = of_nat (N choose Suc k)"
proof -
  define A :: rat where "A = of_int (int k + 1)"
  define B :: rat where "B = of_int (int N - int k)"
  have "Suc k * (N choose Suc k) = (N - k) * (N choose k)"
    using binomial_absorption[of k N] binomial_absorb_comp[of N k] by simp
  then have "(of_nat (Suc k * (N choose Suc k)) :: rat) = of_nat ((N - k) * (N choose k))"
    by simp
  then have "(of_nat (Suc k) :: rat) * of_nat (N choose Suc k)
             = of_nat (N - k) * of_nat (N choose k)"
    by (simp only: of_nat_mult)
  moreover have "(of_nat (N - k) :: rat) = B"
    using assms by (simp add: of_nat_diff B_def)
  moreover have "(of_nat (Suc k) :: rat) = A"
    by (simp add: A_def)
  ultimately have e: "A * of_nat (N choose Suc k) = B * of_nat (N choose k)"
    by (simp only:)
  have A0: "A \<noteq> 0"
    unfolding A_def by (simp only: of_int_eq_0_iff)
  have "of_nat (N choose k) * B / A = (A * of_nat (N choose Suc k)) / A"
    by (simp only: e mult.commute)
  also have "\<dots> = of_nat (N choose Suc k)"
    using A0 by simp
  finally show ?thesis by (simp only: A_def B_def)
qed

text \<open>
  The loop invariant: entering iteration \<open>i\<close> the running product is \<open>C(n, i - 1)\<close>
  and has not exceeded the cap; the loop then returns \<open>C(n, r)\<close> or the cap.
\<close>

lemma comb_loop_binomial:
  "1 \<le> i \<Longrightarrow> i \<le> r + 1 \<Longrightarrow> 2 * r \<le> n \<Longrightarrow> res = of_nat (nat n choose nat (i - 1)) \<Longrightarrow>
   (nat n choose nat (i - 1)) \<le> 1000000 \<Longrightarrow>
   comb_loop n r i res = min (int (nat n choose nat r)) 1000000"
proof (induction n r i res rule: comb_loop.induct)
  case (1 n r i res)
  show ?case
  proof (cases "i \<le> r")
    case False
    with "1.prems" have ir: "i = r + 1" by simp
    then have "comb_loop n r i res = \<lfloor>res\<rfloor>"
      by (subst comb_loop.simps) simp
    also have "\<dots> = int (nat n choose nat r)"
      using "1.prems"(4) ir by simp
    finally show ?thesis using "1.prems"(5) ir by simp
  next
    case True
    define k where "k = nat (i - 1)"
    define N where "N = nat n"
    have kN: "k < N" using True "1.prems" by (simp add: k_def N_def)
    have ik: "i = int k + 1" using "1.prems"(1) by (simp add: k_def)
    have nN: "n = int N" using True "1.prems" by (simp add: N_def)
    have res': "res * of_int (n - i + 1) / of_int i = of_nat (N choose Suc k)"
      using binomial_step[OF kN] "1.prems"(4)
      by (simp add: ik nN k_def[symmetric] N_def[symmetric])
    have Sk: "Suc k = nat (i + 1 - 1)" using "1.prems"(1) by (simp add: k_def)
    have mono: "N choose Suc k \<le> N choose nat r"
      by (rule binomial_mono) (use True "1.prems" in \<open>auto simp: k_def N_def\<close>)
    show ?thesis
    proof (cases "(1000000::nat) < (N choose Suc k)")
      case big: True
      then have "(1000000::rat) < of_nat (N choose Suc k)"
        by (metis of_nat_less_iff of_nat_numeral)
      then have "comb_loop n r i res = 1000000"
        using True res' by (subst comb_loop.simps) (simp add: Let_def)
      moreover have "(1000000::nat) < (N choose nat r)" using big mono by simp
      ultimately show ?thesis by (simp add: N_def)
    next
      case small: False
      then have nb: "\<not> (1000000::rat) < of_nat (N choose Suc k)"
        by (metis of_nat_less_iff of_nat_numeral)
      have "comb_loop n r i res = comb_loop n r (i + 1) (res * of_int (n - i + 1) / of_int i)"
        using True nb res' by (subst comb_loop.simps) (simp add: Let_def)
      also have "\<dots> = min (int (nat n choose nat r)) 1000000"
      proof (rule "1.IH"[OF True refl])
        show "\<not> 1000000 < res * of_int (n - i + 1) / of_int i" using nb res' by simp
        show "1 \<le> i + 1" using "1.prems" by simp
        show "i + 1 \<le> r + 1" using True by simp
        show "2 * r \<le> n" by fact
        show "res * of_int (n - i + 1) / of_int i = of_nat (nat n choose nat (i + 1 - 1))"
          using res' Sk by (simp add: N_def)
        show "nat n choose nat (i + 1 - 1) \<le> 1000000"
          using small Sk by (simp add: N_def)
      qed
      finally show ?thesis .
    qed
  qed
qed

lemma half_test: "((of_int r :: rat) > of_int n / 2) = (n < 2 * r)"
proof -
  have "((of_int r :: rat) > of_int n / 2) = ((of_int n :: rat) < of_int (2 * r))"
    by (simp add: field_simps)
  then show ?thesis by (simp only: of_int_less_iff)
qed

lemma combinations_min:
  assumes "0 \<le> r" "r \<le> n"
  shows "combinations n r = min (int (nat n choose nat r)) 1000000"
proof -
  consider "r = 0" | "r = n" | "0 < r" "r < n" using assms by linarith
  then show ?thesis
  proof cases
    case 1
    then show ?thesis using assms by (simp add: combinations_def)
  next
    case 2
    then show ?thesis using assms by (simp add: combinations_def)
  next
    case 3
    define r' where "r' = (if (of_int r :: rat) > of_int n / 2 then n - r else r)"
    have c: "combinations n r = comb_loop n r' 1 1"
      using 3 by (simp add: combinations_def r'_def)
    have r'1: "1 \<le> r'" "2 * r' \<le> n" using 3 by (auto simp: r'_def half_test)
    have sym: "nat n choose nat r' = nat n choose nat r"
    proof (cases "n < 2 * r")
      case True
      then have "nat r' = nat n - nat r"
        using 3 by (simp add: r'_def half_test nat_diff_distrib)
      then show ?thesis using binomial_symmetric[of "nat r" "nat n"] 3 by simp
    next
      case False
      then show ?thesis by (simp add: r'_def half_test)
    qed
    have "comb_loop n r' 1 1 = min (int (nat n choose nat r')) 1000000"
      by (rule comb_loop_binomial) (use r'1 in auto)
    then show ?thesis using c sym by simp
  qed
qed

lemma choose_22_11: "(22 choose 11) = (705432::nat)"
  using binomial_fact_lemma[of 11 22] by (simp add: fact_numeral)

lemma choose_30_15: "(30 choose 15) = (155117520::nat)"
  using binomial_fact_lemma[of 15 30] by (simp add: fact_numeral)

lemma choose_le_22:
  assumes "N \<le> 22"
  shows "N choose k \<le> 705432"
proof -
  have "N choose k \<le> 22 choose k" using assms by (rule binomial_right_mono)
  also have "\<dots> \<le> 22 choose (22 div 2)" by (rule binomial_maximum)
  also have "\<dots> = 705432" using choose_22_11 by simp
  finally show ?thesis .
qed

text \<open>
  C9: \<open>combinations n r\<close> is 0 whenever \<open>r > n\<close> or \<open>r < 0\<close>, and for
  \<open>0 \<le> r \<le> n\<close> it is 1 whenever \<open>r = 0\<close> or \<open>r = n\<close>. The function is total on
  all pairs of integers, negative ones included: it has no failing branch.
\<close>

theorem combinations_edge_cases:
  "(r > n \<or> r < 0 \<longrightarrow> combinations n r = 0) \<and>
   (0 \<le> r \<and> r \<le> n \<and> (r = 0 \<or> r = n) \<longrightarrow> combinations n r = 1)"
  by (auto simp: combinations_def)

theorem combinations_edge_cases_witness:
  "combinations 3 5 = 0 \<and> combinations (- 4) (- 7) = 0 \<and> combinations (- 4) (- 2) = 0 \<and>
   combinations 6 0 = 1 \<and> combinations 6 6 = 1 \<and> combinations 0 0 = 1"
  using combinations_edge_cases[of 3 5] combinations_edge_cases[of "- 4" "- 7"]
    combinations_edge_cases[of "- 4" "- 2"] combinations_edge_cases[of 6 0]
    combinations_edge_cases[of 6 6] combinations_edge_cases[of 0 0]
  by simp

text \<open>
  C7: for every pair of integers the result of \<open>combinations\<close> lies between 0 and the
  cap 1,000,000; an iteration whose running product exceeds 1,000,000 returns exactly
  the cap; and \<open>combinations 50 25 = 1000000\<close>.
\<close>

theorem combinations_capped:
  "0 \<le> combinations n r \<and> combinations n r \<le> 1000000 \<and>
   (i \<le> r' \<and> res * of_int (m - i + 1) / of_int i > 1000000 \<longrightarrow>
      comb_loop m r' i res = 1000000) \<and>
   combinations 50 25 = 1000000"
proof -
  have range: "0 \<le> combinations n r \<and> combinations n r \<le> 1000000"
  proof (cases "0 \<le> r \<and> r \<le> n")
    case True
    then show ?thesis by (simp add: combinations_min)
  next
    case False
    then show ?thesis by (auto simp: combinations_def)
  qed
  have step: "i \<le> r' \<and> res * of_int (m - i + 1) / of_int i > 1000000 \<longrightarrow>
      comb_loop m r' i res = 1000000"
    by (subst comb_loop.simps) (simp add: Let_def)
  have "combinations 50 25 = 1000000"
    by (simp add: combinations_def comb_loop.simps)
  with range step show ?thesis by blast
qed

theorem combinations_capped_witness:
  "0 \<le> combinations 40 20 \<and> combinations 40 20 \<le> 1000000 \<and>
   comb_loop 2000000 2 1 1 = 1000000"
  using combinations_capped[of 40 20 1 2 1 2000000] by simp

text \<open>
  C4, as the code has it: for \<open>0 \<le> r \<le> n \<le> 30\<close> the calculator returns the smaller of
  the exact binomial coefficient \<open>C(n, r)\<close> and the cap 1,000,000, so it is exact
  whenever \<open>C(n, r) \<le> 1,000,000\<close>, in particular for every \<open>n \<le> 22\<close>;
  \<open>calculateSafeMax\<close> passes the value on for a catalog of \<open>n\<close> songs and grid size
  \<open>g\<close> with \<open>g\<^sup>2 \<le> n\<close>; and \<open>C(25,25) = 1\<close>, \<open>C(25,0) = 1\<close>, \<open>C(25,1) = 25\<close>,
  \<open>C(10,5) = 252\<close>.
\<close>

theorem combinations_binomial_up_to_cap:
  assumes "0 \<le> r" and "r \<le> n" and "n \<le> 30"
  shows "combinations n r = min (int (nat n choose nat r)) 1000000 \<and>
         (int (nat n choose nat r) \<le> 1000000 \<longrightarrow> combinations n r = int (nat n choose nat r)) \<and>
         (n \<le> 22 \<longrightarrow> combinations n r = int (nat n choose nat r)) \<and>
         (r = g * g \<longrightarrow> calculateSafeMax n g = min (int (nat n choose nat r)) 1000000) \<and>
         combinations 25 25 = 1 \<and> combinations 25 0 = 1 \<and> combinations 25 1 = 25 \<and>
         combinations 10 5 = 252"
proof -
  have m: "combinations n r = min (int (nat n choose nat r)) 1000000"
    using assms by (simp add: combinations_min)
  have small: "n \<le> 22 \<longrightarrow> combinations n r = int (nat n choose nat r)"
  proof
    assume "n \<le> 22"
    then have "nat n \<le> 22" by simp
    then have "nat n choose nat r \<le> 705432" by (rule choose_le_22)
    then show "combinations n r = int (nat n choose nat r)" using m by simp
  qed
  have safe: "r = g * g \<longrightarrow> calculateSafeMax n g = min (int (nat n choose nat r)) 1000000"
    using assms m by (auto simp: calculateSafeMax_def Let_def)
  have ex: "combinations 25 25 = 1 \<and> combinations 25 0 = 1 \<and> combinations 25 1 = 25 \<and>
         combinations 10 5 = 252"
    by (simp add: combinations_def comb_loop.simps)
  from m small safe ex show ?thesis by simp
qed

theorem combinations_binomial_up_to_cap_witness:
  "(0::int) \<le> 9 \<and> (9::int) \<le> 12 \<and> (12::int) \<le> 30 \<and>
   combinations 12 9 = 220 \<and> calculateSafeMax 12 3 = 220 \<and> int (nat 12 choose nat 9) = 220"
proof -
  have c: "int (nat 12 choose nat 9) = 220"
    using binomial_fact_lemma[of 9 12] by (simp add: fact_numeral)
  show ?thesis
    using combinations_binomial_up_to_cap[of 9 12 3] c by simp
qed

theorem combinations_30_15_not_exact:
  "\<not> (combinations 30 15 = int (nat 30 choose nat 15))"
proof -
  have "combinations 30 15 = 1000000"
    by (simp add: combinations_def comb_loop.simps)
  then show ?thesis using choose_30_15 by simp
qed

section \<open>Properties of the win evaluator\<close>

lemma bindE_Inl [simp]: "bindE (Inl e) f = Inl e"
  by (simp add: bindE_def)

lemma bindE_Inr [simp]: "bindE (Inr x) f = f x"
  by (simp add: bindE_def)

subsection \<open>checkWins on grids of empty rows\<close>

lemma rows_loop_empty_rows:
  "\<forall>row\<in>set g. row = [] \<Longrightarrow> rows_loop P g n = Inr (n + length g)"
  by (induction g arbitrary: n) auto

lemma grid_every_empty_rows:
  "\<forall>row\<in>set g. row = [] \<Longrightarrow> grid_every P g = Inr True"
  by (induction g) auto

lemma checkWins_nonempty:
  assumes "grid t = Some g" and "g \<noteq> []"
  shows "checkWins t P =
     bindE (rows_loop P g 0) (\<lambda>h.
     bindE (cols_loop P g [0..<length (hd g)] 0) (\<lambda>v.
     bindE (diagonal_lines P g (length g) (length (hd g))) (\<lambda>d.
     bindE (four_corners P g (length g) (length (hd g))) (\<lambda>fc.
     bindE (grid_every P g) (\<lambda>am.
       Inr ((if h + v + d \<ge> 1 then [ONE_LINE] else []) @
            (if h + v + d \<ge> 2 then [TWO_LINES] else []) @
            (if fc then [FOUR_CORNERS] else []) @
            (if am then [FULL_HOUSE] else [])))))))"
proof -
  obtain row0 rest where g: "g = row0 # rest" using assms(2) by (cases g) auto
  show ?thesis
    unfolding checkWins_def assms(1) g
    by (simp add: Let_def del: rows_loop.simps grid_every.simps cols_loop.simps)
qed

lemma checkWins_of_empty_rows:
  assumes "grid t = Some g" and "g \<noteq> []" and "\<forall>row\<in>set g. row = []"
  shows "checkWins t P = Inr ([ONE_LINE] @ (if 2 \<le> length g then [TWO_LINES] else []) @ [FULL_HOUSE])"
proof -
  have r0: "hd g = []" using assms(2,3) by (cases g) auto
  have rl: "rows_loop P g 0 = Inr (length g)"
    using rows_loop_empty_rows[OF assms(3), of P 0] by simp
  have ge: "grid_every P g = Inr True"
    by (rule grid_every_empty_rows[OF assms(3)])
  have dl: "diagonal_lines P g (length g) 0 = Inr 0"
    using assms(2) by (simp add: diagonal_lines_def)
  have fc: "four_corners P g (length g) 0 = Inr False"
    by (simp add: four_corners_def)
  have pos: "1 \<le> length g" using assms(2) by (cases g) auto
  show ?thesis
    unfolding checkWins_nonempty[OF assms(1,2)] r0
    using pos by (simp add: rl ge dl fc)
qed

subsection \<open>checkWins on rectangular grids of defined cells\<close>

lemma row_every_eq:
  "\<forall>c\<in>set row. song c \<noteq> None \<Longrightarrow> row_every P row = Inr (list_all (cell_played P) row)"
  by (induction row) (auto simp: cell_song_id_def cell_played_def split: option.splits)

lemma rows_loop_eq:
  "\<forall>row\<in>set g. \<forall>c\<in>set row. song c \<noteq> None \<Longrightarrow>
   rows_loop P g n = Inr (n + length (filter (list_all (cell_played P)) g))"
  by (induction g arbitrary: n) (auto simp: row_every_eq)

lemma grid_every_eq:
  "\<forall>row\<in>set g. \<forall>c\<in>set row. song c \<noteq> None \<Longrightarrow>
   grid_every P g = Inr (list_all (list_all (cell_played P)) g)"
  by (induction g) (auto simp: row_every_eq)

lemma grid_song_id_eq:
  "r < length g \<Longrightarrow> c < length (g ! r) \<Longrightarrow> song (g ! r ! c) \<noteq> None \<Longrightarrow>
   \<exists>i. grid_song_id g r c = Inr i \<and> (i \<in> P \<longleftrightarrow> cell_played P (g ! r ! c))"
  by (auto simp: grid_song_id_def cell_song_id_def cell_played_def split: option.splits)

lemma line_complete_eq:
  "\<forall>(r, c)\<in>set ps. r < length g \<and> c < length (g ! r) \<and> song (g ! r ! c) \<noteq> None \<Longrightarrow>
   line_complete P g ps = Inr (list_all (\<lambda>(r, c). cell_played P (g ! r ! c)) ps)"
proof (induction ps)
  case Nil
  then show ?case by simp
next
  case (Cons p ps)
  obtain r c where p: "p = (r, c)" by (cases p)
  from Cons.prems p obtain i where
    i: "grid_song_id g r c = Inr i" "i \<in> P \<longleftrightarrow> cell_played P (g ! r ! c)"
    using grid_song_id_eq[of r g c P] by auto
  from Cons have IH: "line_complete P g ps = Inr (list_all (\<lambda>(r, c). cell_played P (g ! r ! c)) ps)"
    by simp
  show ?case using i IH by (simp add: p)
qed

lemma wf_grid_cell:
  "wf_grid g cols \<Longrightarrow> r < length g \<Longrightarrow> c < cols \<Longrightarrow>
   c < length (g ! r) \<and> song (g ! r ! c) \<noteq> None"
proof -
  assume wf: "wf_grid g cols" and r: "r < length g" and c: "c < cols"
  have row: "g ! r \<in> set g" using r by simp
  then have len: "length (g ! r) = cols" using wf by (simp add: wf_grid_def)
  then have "g ! r ! c \<in> set (g ! r)" using c by simp
  then have "song (g ! r ! c) \<noteq> None" using wf row by (simp add: wf_grid_def)
  then show ?thesis using len c by simp
qed

lemma line_complete_wf:
  assumes "wf_grid g cols" and "\<forall>(r, c)\<in>set ps. r < length g \<and> c < cols"
  shows "line_complete P g ps = Inr (list_all (\<lambda>(r, c). cell_played P (g ! r ! c)) ps)"
proof (rule line_complete_eq, clarify)
  fix r c
  assume "(r, c) \<in> set ps"
  then have "r < length g \<and> c < cols" using assms(2) by auto
  then show "r < length g \<and> c < length (g ! r) \<and> song (g ! r ! c) \<noteq> None"
    using wf_grid_cell[OF assms(1)] by simp
qed

lemma column_eq:
  assumes "wf_grid g cols" and "c < cols"
  shows "line_complete P g (map (\<lambda>r. (r, c)) [0..<length g])
         = Inr (list_all (\<lambda>row. cell_played P (row ! c)) g)"
proof -
  have "line_complete P g (map (\<lambda>r. (r, c)) [0..<length g])
        = Inr (list_all (\<lambda>(r, c). cell_played P (g ! r ! c)) (map (\<lambda>r. (r, c)) [0..<length g]))"
    by (rule line_complete_wf[OF assms(1)]) (use assms(2) in auto)
  moreover have "list_all (\<lambda>(r, c). cell_played P (g ! r ! c)) (map (\<lambda>r. (r, c)) [0..<length g])
        = list_all (\<lambda>row. cell_played P (row ! c)) g"
    by (auto simp: list_all_iff all_set_conv_all_nth)
  ultimately show ?thesis by simp
qed

lemma cols_loop_eq:
  assumes "wf_grid g cols"
  shows "\<forall>c\<in>set cs. c < cols \<Longrightarrow>
   cols_loop P g cs n
   = Inr (n + length (filter (\<lambda>c. list_all (\<lambda>row. cell_played P (row ! c)) g) cs))"
  by (induction cs arbitrary: n) (auto simp: column_eq[OF assms])

lemma diagonal_lines_eq:
  assumes "wf_grid g cols"
  shows "diagonal_lines P g (length g) cols =
     Inr (if length g = cols then
        (if list_all (\<lambda>i. cell_played P (g ! i ! i)) [0..<length g] then 1 else 0) +
        (if list_all (\<lambda>i. cell_played P (g ! i ! (length g - 1 - i))) [0..<length g]
         then 1 else 0)
      else 0)"
proof (cases "length g = cols")
  case False
  then show ?thesis by (simp add: diagonal_lines_def)
next
  case True
  have d1: "line_complete P g (map (\<lambda>i. (i, i)) [0..<length g])
      = Inr (list_all (\<lambda>(r, c). cell_played P (g ! r ! c)) (map (\<lambda>i. (i, i)) [0..<length g]))"
    by (rule line_complete_wf[OF assms]) (use True in auto)
  have d2: "line_complete P g (map (\<lambda>i. (i, length g - 1 - i)) [0..<length g])
      = Inr (list_all (\<lambda>(r, c). cell_played P (g ! r ! c))
               (map (\<lambda>i. (i, length g - 1 - i)) [0..<length g]))"
    by (rule line_complete_wf[OF assms]) (use True in auto)
  show ?thesis
    using True d1 d2 by (simp add: diagonal_lines_def list_all_iff)
qed

lemma four_corners_returns:
  assumes "wf_grid g cols" and "g \<noteq> []"
  shows "\<exists>b. four_corners P g (length g) cols = Inr b"
proof (cases "2 \<le> length g \<and> 2 \<le> cols")
  case False
  then show ?thesis by (auto simp: four_corners_def)
next
  case True
  have a: "\<exists>i. grid_song_id g r c = Inr i" if "r < length g" "c < cols" for r c
    using grid_song_id_eq[of r g c P] wf_grid_cell[OF assms(1) that] that(1) by blast
  have b: "0 < length g" "0 < cols" "length g - 1 < length g" "cols - 1 < cols"
    using True by auto
  obtain i1 where i1: "grid_song_id g 0 0 = Inr i1"
    using a[OF b(1) b(2)] by blast
  obtain i2 where i2: "grid_song_id g 0 (cols - 1) = Inr i2"
    using a[OF b(1) b(4)] by blast
  obtain i3 where i3: "grid_song_id g (length g - 1) 0 = Inr i3"
    using a[OF b(3) b(2)] by blast
  obtain i4 where i4: "grid_song_id g (length g - 1) (cols - 1) = Inr i4"
    using a[OF b(3) b(4)] by blast
  show ?thesis using True i1 i2 i3 i4 by (simp add: four_corners_def)
qed

text \<open>
  C8: for every played set, \<open>checkWins\<close> applied to a ticket whose grid is \<open>null\<close> or
  \<open>undefined\<close>, or has zero rows, returns the empty list of win conditions and raises
  no error.
\<close>

theorem checkWins_no_grid:
  assumes "grid t = None \<or> grid t = Some []"
  shows "checkWins t played = Inr []"
  using assms by (auto simp: checkWins_def)

theorem checkWins_no_grid_witness:
  "checkWins \<lparr>ticket_id = ''1'', grid = None\<rparr> {''a''} = Inr [] \<and>
   checkWins \<lparr>ticket_id = ''2'', grid = Some []\<rparr> {''a''} = Inr []"
  using checkWins_no_grid[of "\<lparr>ticket_id = ''1'', grid = None\<rparr>" "{''a''}"]
    checkWins_no_grid[of "\<lparr>ticket_id = ''2'', grid = Some []\<rparr>" "{''a''}"]
  by simp

text \<open>
  C10: for a ticket whose grid has at least one row and only rows without cells, and for
  every played set, the empty one included, \<open>checkWins\<close> returns a list that contains
  both \<open>'1_LINE'\<close> and \<open>'FULL_HOUSE'\<close>: every empty row counts as a complete line
  and the grid without cells counts as fully covered. The list is \<open>'1_LINE'\<close>, then
  \<open>'2_LINES'\<close> when there are two rows or more, then \<open>'FULL_HOUSE'\<close>.
\<close>

theorem checkWins_empty_rows_win:
  assumes "grid t = Some g" and "g \<noteq> []" and "\<forall>row\<in>set g. row = []"
  shows "\<exists>wins. checkWins t played = Inr wins \<and> ONE_LINE \<in> set wins \<and> FULL_HOUSE \<in> set wins \<and>
           wins = [ONE_LINE] @ (if 2 \<le> length g then [TWO_LINES] else []) @ [FULL_HOUSE]"
  using checkWins_of_empty_rows[OF assms, of played] by simp

theorem checkWins_empty_rows_win_witness:
  "checkWins \<lparr>ticket_id = ''1'', grid = Some [[], [], []]\<rparr> {} = Inr [ONE_LINE, TWO_LINES, FULL_HOUSE] \<and>
   checkWins \<lparr>ticket_id = ''1'', grid = Some [[]]\<rparr> {} = Inr [ONE_LINE, FULL_HOUSE]"
  using checkWins_empty_rows_win[of "\<lparr>ticket_id = ''1'', grid = Some [[], [], []]\<rparr>" "[[], [], []]" "{}"]
    checkWins_empty_rows_win[of "\<lparr>ticket_id = ''1'', grid = Some [[]]\<rparr>" "[[]]" "{}"]
  by simp

text \<open>
  C3: for a ticket whose grid has at least one row, is rectangular and holds a song in
  every cell, and for every played set, \<open>checkWins\<close> returns a list that contains
  \<open>'1_LINE'\<close> exactly when the total completed-line count is at least 1 and
  \<open>'2_LINES'\<close> exactly when that total is at least 2; the total is the number of
  complete rows plus complete columns plus complete diagonals (the two diagonals count
  only in a square grid).
\<close>

theorem checkWins_line_wins:
  assumes "grid t = Some g" and "g \<noteq> []"
    and "\<forall>row\<in>set g. length row = length (hd g)"
    and "\<forall>row\<in>set g. \<forall>c\<in>set row. song c \<noteq> None"
  shows "\<exists>wins. checkWins t P = Inr wins \<and>
           (ONE_LINE \<in> set wins \<longleftrightarrow> 1 \<le> total_completed_lines P g) \<and>
           (TWO_LINES \<in> set wins \<longleftrightarrow> 2 \<le> total_completed_lines P g)"
proof -
  obtain row0 rest where g: "g = row0 # rest" using assms(2) by (cases g) auto
  define cols where "cols = length row0"
  have wf: "wf_grid g cols" using assms(3,4) g by (simp add: wf_grid_def cols_def)
  have rl: "rows_loop P g 0 = Inr (complete_rows P g)"
    using rows_loop_eq[OF assms(4), of P 0] by (simp add: complete_rows_def)
  have cl: "cols_loop P g [0..<cols] 0 = Inr (complete_columns P g)"
    using cols_loop_eq[OF wf, of "[0..<cols]" P 0] g
    by (simp add: complete_columns_def cols_def)
  have dl: "diagonal_lines P g (length g) cols = Inr (complete_diagonals P g)"
    using diagonal_lines_eq[OF wf, of P] g by (simp add: complete_diagonals_def cols_def)
  obtain fc where fc: "four_corners P g (length g) cols = Inr fc"
    using four_corners_returns[OF wf assms(2)] by blast
  have ge: "grid_every P g = Inr (list_all (list_all (cell_played P)) g)"
    by (rule grid_every_eq[OF assms(4)])
  define total where "total = total_completed_lines P g"
  have hd: "length (hd g) = cols" using g by (simp add: cols_def)
  have "checkWins t P = Inr ((if total \<ge> 1 then [ONE_LINE] else []) @
                (if total \<ge> 2 then [TWO_LINES] else []) @
                (if fc then [FOUR_CORNERS] else []) @
                (if list_all (list_all (cell_played P)) g then [FULL_HOUSE] else []))"
    unfolding checkWins_nonempty[OF assms(1,2)] hd
    by (simp add: rl cl dl fc ge total_def total_completed_lines_def)
  then show ?thesis unfolding total_def by auto
qed

lemma total_lines_example:
  "total_completed_lines {''a'', ''b''} grid_abcd = 1 \<and>
   total_completed_lines {''a'', ''b'', ''d''} grid_abcd = 3"
  by (simp add: total_completed_lines_def complete_rows_def complete_columns_def
      complete_diagonals_def grid_abcd_def mk_cell_def mk_song_def cell_played_def)

theorem checkWins_line_wins_witness:
  "(\<exists>wins. checkWins \<lparr>ticket_id = ''1'', grid = Some grid_abcd\<rparr> {''a'', ''b''} = Inr wins \<and>
      ONE_LINE \<in> set wins \<and> TWO_LINES \<notin> set wins) \<and>
   (\<exists>wins. checkWins \<lparr>ticket_id = ''1'', grid = Some grid_abcd\<rparr> {''a'', ''b'', ''d''} = Inr wins \<and>
      ONE_LINE \<in> set wins \<and> TWO_LINES \<in> set wins)"
proof -
  let ?t = "\<lparr>ticket_id = ''1'', grid = Some grid_abcd\<rparr>"
  have h1: "grid ?t = Some grid_abcd" by simp
  have h2: "grid_abcd \<noteq> []" by (simp add: grid_abcd_def)
  have h3: "\<forall>row\<in>set grid_abcd. length row = length (hd grid_abcd)"
    by (simp add: grid_abcd_def)
  have h4: "\<forall>row\<in>set grid_abcd. \<forall>c\<in>set row. song c \<noteq> None"
    by (simp add: grid_abcd_def mk_cell_def)
  show ?thesis
    using checkWins_line_wins[OF h1 h2 h3 h4, of "{''a'', ''b''}"]
      checkWins_line_wins[OF h1 h2 h3 h4, of "{''a'', ''b'', ''d''}"]
      total_lines_example
    by simp
qed

section \<open>Properties of the ticket generator\<close>

lemma fill_row_eq:
  "fill_row sel k s =
     (map (\<lambda>j. \<lparr>song = array_get sel j, marked = False\<rparr>) [s..<s + k], s + k)"
proof (induction k arbitrary: s)
  case 0
  then show ?case by simp
next
  case (Suc k)
  have "[s..<s + Suc k] = s # [Suc s..<Suc s + k]"
    by (simp add: upt_rec)
  then show ?case using Suc[of "Suc s"] by (simp add: Let_def)
qed

lemma length_fill_grid: "length (fill_grid sel g k s) = k"
  by (induction k arbitrary: s) (auto simp: fill_row_eq)

lemma rows_fill_grid: "row \<in> set (fill_grid sel g k s) \<Longrightarrow> length row = g"
  by (induction k arbitrary: s) (auto simp: fill_row_eq)

lemma concat_fill_grid:
  "concat (fill_grid sel g k s) =
     map (\<lambda>j. \<lparr>song = array_get sel j, marked = False\<rparr>) [s..<s + k * g]"
proof (induction k arbitrary: s)
  case 0
  then show ?case by simp
next
  case (Suc k)
  have "[s..<s + Suc k * g] = [s..<s + g] @ [s + g..<s + g + k * g]"
    using upt_add_eq_append[of s "s + g" "k * g"] by (simp add: add.assoc)
  then show ?case using Suc[of "s + g"] by (simp add: fill_row_eq)
qed

lemma cells_in_range:
  assumes "length sel = n"
  shows "map song (map (\<lambda>j. \<lparr>song = array_get sel j, marked = False\<rparr>) [0..<n]) = map Some sel"
  using assms by (auto simp: array_get_def intro: nth_equalityI)

lemma distinct_ids_perm:
  assumes "distinct (map song_id catalog)" and "mset shuffled = mset catalog"
  shows "distinct (map song_id (take n shuffled))"
proof -
  have "mset (map song_id shuffled) = mset (map song_id catalog)"
    using assms(2) by (metis mset_map)
  then have "distinct (map song_id shuffled)"
    using assms(1) by (metis mset_eq_imp_distinct_iff)
  then show ?thesis by (simp add: take_map[symmetric] distinct_take del: take_map)
qed

text \<open>
  C2: for a catalog of pairwise distinct song ids with at least \<open>gridSize\<^sup>2\<close> songs,
  \<open>gridSize \<ge> 1\<close>, and a shuffle that permutes the catalog (what
  \<open>Array.prototype.sort\<close> does to the copy), \<open>generateTicket\<close> returns a ticket
  whose grid has exactly \<open>gridSize\<close> rows of exactly \<open>gridSize\<close> cells; the cells
  hold \<open>gridSize\<^sup>2\<close> songs of the catalog with pairwise distinct ids, and every cell
  has \<open>marked = false\<close>.
\<close>

theorem generateTicket_shape:
  assumes "distinct (map song_id catalog)"
    and "g * g \<le> int (length catalog)"
    and "1 \<le> g"
    and "mset (shuffle catalog) = mset catalog"
  shows "\<exists>t rows sel. generateTicket shuffle uuid catalog g tid = Inr t \<and>
           grid t = Some rows \<and>
           length rows = nat g \<and>
           (\<forall>row\<in>set rows. length row = nat g) \<and>
           map song (concat rows) = map Some sel \<and>
           length sel = nat (g * g) \<and>
           distinct (map song_id sel) \<and>
           set sel \<subseteq> set catalog \<and>
           (\<forall>cell\<in>set (concat rows). marked cell = False)"
proof -
  define sel where "sel = take (nat (g * g)) (shuffle catalog)"
  define rows where "rows = fill_grid sel (nat g) (nat g) 0"
  define t where "t = \<lparr>ticket_id = (case tid of None \<Rightarrow> uuid | Some s \<Rightarrow> if s = [] then uuid else s),
                        grid = Some rows\<rparr>"
  have gen: "generateTicket shuffle uuid catalog g tid = Inr t"
    using assms(2) by (simp add: generateTicket_def Let_def t_def rows_def sel_def)
  have len_sh: "length (shuffle catalog) = length catalog"
    using assms(4) by (metis size_mset)
  have len_sel: "length sel = nat (g * g)"
    using assms(2) len_sh by (simp add: sel_def)
  have gg: "nat g * nat g = nat (g * g)"
    using assms(3) by (simp add: nat_mult_distrib)
  have cc: "concat rows = map (\<lambda>j. \<lparr>song = array_get sel j, marked = False\<rparr>) [0..<nat (g * g)]"
    using concat_fill_grid[of sel "nat g" "nat g" 0] gg by (simp add: rows_def)
  have songs: "map song (concat rows) = map Some sel"
    unfolding cc by (rule cells_in_range[OF len_sel])
  have dist: "distinct (map song_id sel)"
    unfolding sel_def by (rule distinct_ids_perm[OF assms(1,4)])
  have sub: "set sel \<subseteq> set catalog"
  proof -
    have "set sel \<subseteq> set (shuffle catalog)" unfolding sel_def by (rule set_take_subset)
    also have "\<dots> = set catalog" using assms(4) by (metis set_mset_mset)
    finally show ?thesis .
  qed
  have mk: "\<forall>cell\<in>set (concat rows). marked cell = False"
    unfolding cc by auto
  have "grid t = Some rows" by (simp add: t_def)
  moreover have "length rows = nat g" by (simp add: rows_def length_fill_grid)
  moreover have "\<forall>row\<in>set rows. length row = nat g"
    using rows_fill_grid by (auto simp: rows_def)
  ultimately show ?thesis using gen songs len_sel dist sub mk by blast
qed

theorem generateTicket_shape_witness:
  "\<exists>t rows sel.
      generateTicket rev ''uuid'' (map mk_song [''a'', ''b'', ''c'', ''d'', ''e'']) 2 None = Inr t \<and>
      grid t = Some rows \<and> length rows = 2 \<and> list_all (\<lambda>row. length row = 2) rows \<and>
      map song (concat rows) = map Some sel \<and> length sel = 4 \<and>
      distinct (map song_id sel) \<and> list_all (\<lambda>cell. marked cell = False) (concat rows)"
proof -
  let ?cat = "map mk_song [''a'', ''b'', ''c'', ''d'', ''e'']"
  have h1: "distinct (map song_id ?cat)" by (simp add: mk_song_def)
  have h2: "2 * 2 \<le> int (length ?cat)" by simp
  have h3: "(1::int) \<le> 2" by simp
  have h4: "mset (rev ?cat) = mset ?cat" by (rule mset_rev)
  show ?thesis
    using generateTicket_shape[where catalog = ?cat and g = 2 and shuffle = rev
        and uuid = "''uuid''" and tid = None, OF h1 h2 h3 h4]
    by (simp add: list_all_iff) blast
qed

subsection \<open>The retry loop of one slot\<close>


lemma attempts_loop_Unique:
  "attempts_loop rnd cat g i seen a d = (Unique t k, d') \<Longrightarrow>
   songIds_key t = Inr k \<and> k \<notin> seen"
proof (induction rnd cat g i seen a d rule: attempts_loop.induct)
  case (1 rnd cat g i seen a d)
  from "1.prems" show ?case
    by (subst (asm) attempts_loop.simps)
       (auto split: if_splits sum.splits dest: "1.IH")
qed



subsection \<open>The loop over the slots\<close>

lemma tickets_loop_stop:
  "\<not> int i < cnt \<Longrightarrow> tickets_loop rnd cat g cnt i tks seen d = Completed tks [] d"
  by (subst tickets_loop.simps) simp

lemma tickets_loop_Thrown:
  "int i < cnt \<Longrightarrow> attempts_loop rnd cat g i seen 0 d = (Thrown e, d') \<Longrightarrow>
   tickets_loop rnd cat g cnt i tks seen d = Returned (message e) d'"
  by (subst tickets_loop.simps) simp

lemma tickets_loop_Exhausted:
  "int i < cnt \<Longrightarrow> attempts_loop rnd cat g i seen 0 d = (Exhausted, d') \<Longrightarrow>
   tickets_loop rnd cat g cnt i tks seen d
   = Completed tks [exhausted_message (length tks)] d'"
  by (subst tickets_loop.simps) simp

lemma tickets_loop_Unique:
  "int i < cnt \<Longrightarrow> attempts_loop rnd cat g i seen 0 d = (Unique t k, d') \<Longrightarrow>
   tickets_loop rnd cat g cnt i tks seen d
   = tickets_loop rnd cat g cnt (Suc i) (AList.update (ticket_id t) t tks) (insert k seen) d'"
  by (subst tickets_loop.simps) simp


lemma set_update_subset: "set (AList.update k v al) \<subseteq> insert (k, v) (set al)"
  by (induction al) auto

lemma distinct_map_update:
  "distinct (map (\<lambda>e. f (snd e)) al) \<Longrightarrow> f v \<notin> (\<lambda>e. f (snd e)) ` set al \<Longrightarrow>
   distinct (map (\<lambda>e. f (snd e)) (AList.update k v al))"
proof (induction al)
  case Nil
  then show ?case by simp
next
  case (Cons p al)
  obtain a b where p: "p = (a, b)" by (cases p)
  show ?case
  proof (cases "a = k")
    case True
    then show ?thesis using Cons.prems p by auto
  next
    case False
    have "f b \<notin> (\<lambda>e. f (snd e)) ` set (AList.update k v al)"
      using set_update_subset[of k v al] Cons.prems p by force
    then show ?thesis using Cons False p by auto
  qed
qed

text \<open>The loop invariant: the tickets built so far have pairwise different signatures,
  all recorded in \<open>generatedSets\<close>.\<close>

lemma tickets_loop_keys:
  "tickets_loop rnd cat g cnt i tks seen d = Completed out shown d' \<Longrightarrow>
   distinct (map fst tks) \<Longrightarrow>
   distinct (map (\<lambda>e. songIds_key (snd e)) tks) \<Longrightarrow>
   \<forall>e\<in>set tks. \<exists>k. songIds_key (snd e) = Inr k \<and> k \<in> seen \<Longrightarrow>
   distinct (map fst out) \<and> distinct (map (\<lambda>e. songIds_key (snd e)) out) \<and>
   (\<forall>e\<in>set out. \<exists>k. songIds_key (snd e) = Inr k)"
proof (induction rnd cat g cnt i tks seen d rule: tickets_loop.induct)
  case (1 rnd cat g cnt i tks seen d)
  show ?case
  proof (cases "int i < cnt")
    case False
    then have "out = tks" using "1.prems"(1) by (simp add: tickets_loop_stop)
    then show ?thesis using "1.prems" by blast
  next
    case True
    obtain x dx where a: "attempts_loop rnd cat g i seen 0 d = (x, dx)"
      by (cases "attempts_loop rnd cat g i seen 0 d")
    show ?thesis
    proof (cases x)
      case (Thrown e)
      then show ?thesis
        using tickets_loop_Thrown[OF True a[unfolded Thrown]] "1.prems"(1) by simp
    next
      case Exhausted
      then have "out = tks"
        using tickets_loop_Exhausted[OF True a[unfolded Exhausted]] "1.prems"(1) by simp
      then show ?thesis using "1.prems" by blast
    next
      case (Unique t k)
      have tk: "songIds_key t = Inr k" "k \<notin> seen"
        using attempts_loop_Unique[OF a[unfolded Unique]] by simp_all
      let ?tks = "AList.update (ticket_id t) t tks"
      have run: "tickets_loop rnd cat g cnt (Suc i) ?tks (insert k seen) dx
                 = Completed out shown d'"
        using tickets_loop_Unique[OF True a[unfolded Unique]] "1.prems"(1) by simp
      have fresh: "songIds_key t \<notin> (\<lambda>e. songIds_key (snd e)) ` set tks"
      proof
        assume "songIds_key t \<in> (\<lambda>e. songIds_key (snd e)) ` set tks"
        then obtain e where e: "e \<in> set tks" "songIds_key (snd e) = songIds_key t" by auto
        then obtain k' where "songIds_key (snd e) = Inr k'" "k' \<in> seen"
          using "1.prems"(4) by blast
        then show False using e tk by simp
      qed
      have i1: "distinct (map fst ?tks)"
        using "1.prems"(2) by (rule AList.distinct_update)
      have i2: "distinct (map (\<lambda>e. songIds_key (snd e)) ?tks)"
        using "1.prems"(3) fresh by (rule distinct_map_update)
      have i3: "\<forall>e\<in>set ?tks. \<exists>k'. songIds_key (snd e) = Inr k' \<and> k' \<in> insert k seen"
      proof
        fix e assume "e \<in> set ?tks"
        then have "e = (ticket_id t, t) \<or> e \<in> set tks"
          using set_update_subset[of "ticket_id t" t tks] by auto
        then show "\<exists>k'. songIds_key (snd e) = Inr k' \<and> k' \<in> insert k seen"
          using tk "1.prems"(4) by auto
      qed
      show ?thesis
        by (rule "1.IH"[OF True a[symmetric] Unique run i1 i2 i3])
    qed
  qed
qed

lemma keys_sorted_ids:
  assumes "distinct (map (\<lambda>e. songIds_key (snd e)) out)"
    and "\<forall>e\<in>set out. \<exists>k. songIds_key (snd e) = Inr k"
  shows "distinct (map (\<lambda>e. sorted_song_ids (snd e)) out) \<and>
         list_all (\<lambda>e. case sorted_song_ids (snd e) of Inl err \<Rightarrow> False | Inr ids \<Rightarrow> True) out"
proof -
  have eq: "(\<lambda>e. songIds_key (snd e)) = (\<lambda>s. bindE s (\<lambda>ids. Inr (join '','' ids))) \<circ> (\<lambda>e. sorted_song_ids (snd e))"
    by (auto simp: songIds_key_def)
  have "distinct (map (\<lambda>s. bindE s (\<lambda>ids. Inr (join '','' ids))) (map (\<lambda>e. sorted_song_ids (snd e)) out))"
    using assms(1) unfolding eq by simp
  then have d: "distinct (map (\<lambda>e. sorted_song_ids (snd e)) out)"
    using distinct_map by blast
  have "\<And>e. e \<in> set out \<Longrightarrow> (case sorted_song_ids (snd e) of Inl err \<Rightarrow> False | Inr ids \<Rightarrow> True)"
  proof -
    fix e assume "e \<in> set out"
    then obtain k where "songIds_key (snd e) = Inr k" using assms(2) by blast
    then show "case sorted_song_ids (snd e) of Inl err \<Rightarrow> False | Inr ids \<Rightarrow> True"
      by (cases "sorted_song_ids (snd e)") (auto simp: songIds_key_def)
  qed
  then show ?thesis using d by (simp add: list_all_iff)
qed

lemma tickets_loop_distinct_song_sets:
  assumes "tickets_loop rnd cat g cnt 0 [] {} 0 = Completed out shown d"
  shows "distinct_song_sets out"
proof -
  have k: "distinct (map fst out) \<and> distinct (map (\<lambda>e. songIds_key (snd e)) out) \<and>
   (\<forall>e\<in>set out. \<exists>k. songIds_key (snd e) = Inr k)"
    by (rule tickets_loop_keys[OF assms]) simp_all
  then show ?thesis using keys_sorted_ids[of out] by (simp add: distinct_song_sets_def)
qed

subsection \<open>Ticket ids\<close>









subsection \<open>What earlier slots produced is what the loop returns\<close>






subsection \<open>generateTickets, case by case\<close>

lemma generateTickets_no_songs:
  "songsToUse_of st = [] \<Longrightarrow>
   generateTickets rnd cnt st = st\<lparr>alerts := alerts st @ [no_songs_message]\<rparr>"
  by (simp add: generateTickets_def)

lemma generateTickets_Returned:
  assumes "songsToUse_of st \<noteq> []"
    and "\<not> (cnt > calculateSafeMax (int (length (songsToUse_of st))) (gridSize st) \<and>
            calculateSafeMax (int (length (songsToUse_of st))) (gridSize st) > 0)"
    and "tickets_loop rnd (songsToUse_of st) (gridSize st) cnt 0 [] {} 0 = Returned m d"
  shows "generateTickets rnd cnt st = st\<lparr>alerts := alerts st @ [m]\<rparr>"
  using assms by (auto simp: generateTickets_def Let_def)

lemma generateTickets_Completed:
  assumes "songsToUse_of st \<noteq> []"
    and "\<not> (cnt > calculateSafeMax (int (length (songsToUse_of st))) (gridSize st) \<and>
            calculateSafeMax (int (length (songsToUse_of st))) (gridSize st) > 0)"
    and "tickets_loop rnd (songsToUse_of st) (gridSize st) cnt 0 [] {} 0 = Completed out shown d"
  shows "generateTickets rnd cnt st =
         st\<lparr>tickets := out, gameCatalog := songsToUse_of st, alerts := alerts st @ shown\<rparr>"
  using assms by (auto simp: generateTickets_def Let_def)

lemma generateTickets_tickets:
  "tickets (generateTickets rnd cnt st) = tickets st \<or>
   distinct_song_sets (tickets (generateTickets rnd cnt st))"
  by (auto simp: generateTickets_def Let_def split: batch_exit.splits
      dest: tickets_loop_distinct_song_sets)

text \<open>
  C1: in a batch that one call of \<open>generateTickets\<close> produces, no two tickets contain
  the same set of song ids: the ticket ids are pairwise different and the sorted
  sequences of the grid cells' song ids of any two tickets differ. This holds of every
  batch the slot loop completes, and so of the ticket store after the call whenever the
  call has written it.
\<close>

theorem batch_unique_song_sets:
  "(tickets_loop rnd cat g cnt 0 [] {} 0 = Completed out shown d \<longrightarrow> distinct_song_sets out) \<and>
   (tickets (generateTickets rnd cnt st) = tickets st \<or>
    distinct_song_sets (tickets (generateTickets rnd cnt st)))"
  using tickets_loop_distinct_song_sets generateTickets_tickets by blast

lemmas eval_simps =
  attempts_loop.simps generateTicket_def songIds_key_def sorted_song_ids_def
  Let_def array_get_def maxAttempts_def toString_def nat_toString.simps digit_char_def
  mk_song_def mk_cell_def cell_song_id_def numeral_2_eq_2

lemma first_slot:
  "attempts_loop regrouping_source (map mk_song [''a'', ''b'', ''c'', ''d'', ''e'']) 2 0 {} 0 0
   = (Unique ticket_abcd ''a,b,c,d'', 1)"
  by (simp add: eval_simps regrouping_source_def ticket_abcd_def grid_abcd_def)

lemma second_slot:
  "attempts_loop regrouping_source (map mk_song [''a'', ''b'', ''c'', ''d'', ''e'']) 2 (Suc 0)
     {''a,b,c,d''} 0 1
   = (Unique ticket_edcb ''b,c,d,e'', 3)"
  by (simp add: eval_simps regrouping_source_def ticket_edcb_def)

lemma two_tickets_run:
  "tickets_loop regrouping_source (map mk_song [''a'', ''b'', ''c'', ''d'', ''e'']) 2 2 0 [] {} 0 =
   Completed [(''1'', ticket_abcd), (''2'', ticket_edcb)] [] 3"
proof -
  let ?cat = "map mk_song [''a'', ''b'', ''c'', ''d'', ''e'']"
  have "tickets_loop regrouping_source ?cat 2 2 0 [] {} 0
        = tickets_loop regrouping_source ?cat 2 2 (Suc 0) [(''1'', ticket_abcd)] {''a,b,c,d''} 1"
    using tickets_loop_Unique[OF _ first_slot, of 2 "[]"] by (simp add: ticket_abcd_def)
  also have "\<dots> = tickets_loop regrouping_source ?cat 2 2 (Suc (Suc 0))
                      [(''1'', ticket_abcd), (''2'', ticket_edcb)] {''b,c,d,e'', ''a,b,c,d''} 3"
    using tickets_loop_Unique[OF _ second_slot, of 2 "[(''1'', ticket_abcd)]"]
    by (simp add: ticket_edcb_def)
  also have "\<dots> = Completed [(''1'', ticket_abcd), (''2'', ticket_edcb)] [] 3"
    by (rule tickets_loop_stop) simp
  finally show ?thesis .
qed

lemma safeMax_5_2: "calculateSafeMax 5 2 = 5"
  by (simp add: calculateSafeMax_def combinations_def comb_loop.simps)

lemma two_tickets_state:
  "generateTickets regrouping_source 2 five_song_state =
   five_song_state\<lparr>tickets := [(''1'', ticket_abcd), (''2'', ticket_edcb)],
       gameCatalog := map mk_song [''a'', ''b'', ''c'', ''d'', ''e''], alerts := []\<rparr>"
proof -
  have s: "songsToUse_of five_song_state = map mk_song [''a'', ''b'', ''c'', ''d'', ''e'']"
    by (simp add: songsToUse_of_def five_song_state_def)
  have g: "gridSize five_song_state = 2" "alerts five_song_state = []"
    by (simp_all add: five_song_state_def)
  show ?thesis
    using generateTickets_Completed[of five_song_state 2 regrouping_source]
      two_tickets_run
    by (simp add: s g safeMax_5_2)
qed

theorem batch_unique_song_sets_witness:
  "tickets (generateTickets regrouping_source 2 five_song_state) =
     [(''1'', ticket_abcd), (''2'', ticket_edcb)] \<and>
   distinct_song_sets (tickets (generateTickets regrouping_source 2 five_song_state)) \<and>
   sorted_song_ids ticket_abcd = Inr [''a'', ''b'', ''c'', ''d''] \<and>
   sorted_song_ids ticket_edcb = Inr [''b'', ''c'', ''d'', ''e'']"
proof -
  have new: "tickets (generateTickets regrouping_source 2 five_song_state) \<noteq> tickets five_song_state"
    by (simp add: two_tickets_state) (simp add: five_song_state_def)
  then have "distinct_song_sets (tickets (generateTickets regrouping_source 2 five_song_state))"
    using batch_unique_song_sets[where rnd = regrouping_source and cnt = 2
        and st = five_song_state]
    by blast
  moreover have "sorted_song_ids ticket_abcd = Inr [''a'', ''b'', ''c'', ''d'']"
    by (simp add: sorted_song_ids_def ticket_abcd_def grid_abcd_def mk_cell_def mk_song_def
        cell_song_id_def)
  moreover have "sorted_song_ids ticket_edcb = Inr [''b'', ''c'', ''d'', ''e'']"
    by (simp add: sorted_song_ids_def ticket_edcb_def mk_cell_def mk_song_def cell_song_id_def)
  ultimately show ?thesis by (simp add: two_tickets_state)
qed


subsection \<open>A catalog that is too short\<close>

lemma starts_with_append: "starts_with (p @ s) p"
  by (induction p) auto

lemma mentions_append: "mentions (a @ p @ b) p"
proof (induction a)
  case Nil
  show ?case
  proof (cases "p @ b")
    case Nil
    then show ?thesis by simp
  next
    case (Cons c cs)
    have "starts_with (p @ b) p" by (rule starts_with_append)
    then show ?thesis using Cons by simp
  qed
next
  case (Cons x a)
  then show ?case by simp
qed

lemma generateTicket_short:
  "int (length cat) < g * g \<Longrightarrow>
   generateTicket sh u cat g tid =
     Inl (Error (''Catalog must have at least '' @ toString (g * g) @
                 '' songs to generate a '' @ toString g @ ''x'' @ toString g @ '' ticket.''))"
  by (simp add: generateTicket_def Let_def)

lemma attempts_loop_short:
  "int (length cat) < g * g \<Longrightarrow>
   attempts_loop rnd cat g i seen 0 d =
     (Thrown (Error (''Catalog must have at least '' @ toString (g * g) @
                 '' songs to generate a '' @ toString g @ ''x'' @ toString g @ '' ticket.'')),
      Suc d)"
  by (subst attempts_loop.simps) (simp add: generateTicket_short maxAttempts_def)

lemma safeMax_short: "n < g * g \<Longrightarrow> calculateSafeMax n g = 0"
  by (simp add: calculateSafeMax_def Let_def)

text \<open>
  C5, as the code has it: when at least one ticket is requested and the catalog has
  fewer than \<open>gridSize\<^sup>2\<close> songs, generation fails for the whole batch at once: no
  ticket is produced, the ticket store and the game catalog are left as they were, and
  exactly one message is shown. For an empty catalog it is the fixed "No songs
  available" message. Otherwise it is the message of the error that \<open>generateTicket\<close>
  throws at the first draw, "Catalog must have at least \<open>gridSize\<^sup>2\<close> songs to generate
  a \<open>gridSize\<close>x\<open>gridSize\<close> ticket.", which names the items-per-ticket requirement and
  the grid size; the text is stated for \<open>gridSize\<^sup>2 \<le> 2\<^sup>5\<^sup>3\<close>, where the number the
  source prints is the exact square.
\<close>

theorem short_catalog_rejected:
  assumes "int (length (songsToUse_of st)) < gridSize st * gridSize st" and "1 \<le> cnt"
  shows "tickets (generateTickets rnd cnt st) = tickets st \<and>
         gameCatalog (generateTickets rnd cnt st) = gameCatalog st \<and>
         (\<exists>m. generateTickets rnd cnt st = st\<lparr>alerts := alerts st @ [m]\<rparr> \<and>
              (songsToUse_of st = [] \<longrightarrow> m = no_songs_message) \<and>
              (songsToUse_of st \<noteq> [] \<and> gridSize st * gridSize st \<le> 2 ^ 53 \<longrightarrow>
                 m = ''Catalog must have at least '' @ toString (gridSize st * gridSize st) @
                     '' songs to generate a '' @ toString (gridSize st) @ ''x'' @
                     toString (gridSize st) @ '' ticket.'' \<and>
                 generateTicket sh u (songsToUse_of st) (gridSize st) tid = Inl (Error m) \<and>
                 tickets_loop rnd (songsToUse_of st) (gridSize st) cnt 0 [] {} 0 = Returned m 1 \<and>
                 mentions m (toString (gridSize st * gridSize st)) \<and>
                 mentions m (toString (gridSize st))))"
proof (cases "songsToUse_of st = []")
  case True
  then show ?thesis using generateTickets_no_songs[OF True, of rnd cnt] by simp
next
  case False
  let ?g = "gridSize st"
  define m where "m = ''Catalog must have at least '' @ toString (?g * ?g) @
                     '' songs to generate a '' @ toString ?g @ ''x'' @ toString ?g @ '' ticket.''"
  have gen: "generateTicket sh u (songsToUse_of st) ?g tid = Inl (Error m)"
    unfolding m_def by (rule generateTicket_short[OF assms(1)])
  have att: "attempts_loop rnd (songsToUse_of st) ?g 0 {} 0 0 = (Thrown (Error m), Suc 0)"
    unfolding m_def by (rule attempts_loop_short[OF assms(1)])
  have i0: "int 0 < cnt" using assms(2) by simp
  have run: "tickets_loop rnd (songsToUse_of st) ?g cnt 0 [] {} 0 = Returned m 1"
    using tickets_loop_Thrown[OF i0 att, of "[]"] by simp
  have safe: "calculateSafeMax (int (length (songsToUse_of st))) ?g = 0"
    using assms(1) by (rule safeMax_short)
  have st': "generateTickets rnd cnt st = st\<lparr>alerts := alerts st @ [m]\<rparr>"
    by (rule generateTickets_Returned[OF False _ run]) (simp add: safe)
  have m1: "mentions m (toString (?g * ?g))"
    unfolding m_def by (rule mentions_append)
  have m2: "mentions m (toString ?g)"
    using mentions_append[of "''Catalog must have at least '' @ toString (?g * ?g) @
                     '' songs to generate a ''" "toString ?g" "''x'' @ toString ?g @ '' ticket.''"]
    by (simp add: m_def)
  have keep: "tickets (generateTickets rnd cnt st) = tickets st"
    "gameCatalog (generateTickets rnd cnt st) = gameCatalog st"
    by (simp_all add: st')
  have "generateTickets rnd cnt st = st\<lparr>alerts := alerts st @ [m]\<rparr> \<and>
        (songsToUse_of st = [] \<longrightarrow> m = no_songs_message) \<and>
        (songsToUse_of st \<noteq> [] \<and> ?g * ?g \<le> 2 ^ 53 \<longrightarrow>
           m = ''Catalog must have at least '' @ toString (?g * ?g) @
               '' songs to generate a '' @ toString ?g @ ''x'' @ toString ?g @ '' ticket.'' \<and>
           generateTicket sh u (songsToUse_of st) ?g tid = Inl (Error m) \<and>
           tickets_loop rnd (songsToUse_of st) ?g cnt 0 [] {} 0 = Returned m 1 \<and>
           mentions m (toString (?g * ?g)) \<and>
           mentions m (toString ?g))"
    using False st' gen run m1 m2 m_def by blast
  then have "\<exists>m. generateTickets rnd cnt st = st\<lparr>alerts := alerts st @ [m]\<rparr> \<and>
        (songsToUse_of st = [] \<longrightarrow> m = no_songs_message) \<and>
        (songsToUse_of st \<noteq> [] \<and> ?g * ?g \<le> 2 ^ 53 \<longrightarrow>
           m = ''Catalog must have at least '' @ toString (?g * ?g) @
               '' songs to generate a '' @ toString ?g @ ''x'' @ toString ?g @ '' ticket.'' \<and>
           generateTicket sh u (songsToUse_of st) ?g tid = Inl (Error m) \<and>
           tickets_loop rnd (songsToUse_of st) ?g cnt 0 [] {} 0 = Returned m 1 \<and>
           mentions m (toString (?g * ?g)) \<and>
           mentions m (toString ?g))"
    by (rule exI)
  with keep show ?thesis by (intro conjI)
qed

lemma toString_digits: "toString 1 = ''1''" "toString 2 = ''2''" "toString 4 = ''4''"
  by (simp_all add: toString_def nat_toString.simps digit_char_def)

theorem short_catalog_rejected_witness:
  "generateTickets identity_source 1 (two_song_state 2) =
     (two_song_state 2)\<lparr>alerts := [''Catalog must have at least 4 songs to generate a 2x2 ticket.'']\<rparr> \<and>
   tickets (generateTickets identity_source 1 (two_song_state 2)) = [] \<and>
   gameCatalog (generateTickets identity_source 1 (two_song_state 2)) = []"
proof -
  have s: "songsToUse_of (two_song_state 2) = [mk_song ''a'', mk_song ''b'']"
    by (simp add: songsToUse_of_def two_song_state_def)
  have g: "gridSize (two_song_state 2) = 2" "alerts (two_song_state 2) = []"
    "tickets (two_song_state 2) = []" "gameCatalog (two_song_state 2) = []"
    by (simp_all add: two_song_state_def)
  have h1: "int (length (songsToUse_of (two_song_state 2)))
            < gridSize (two_song_state 2) * gridSize (two_song_state 2)"
    by (simp add: s g)
  have h2: "(1::int) \<le> 1" by simp
  show ?thesis
    using short_catalog_rejected[OF h1 h2, of identity_source]
    by (auto simp: s g toString_digits)
qed

text \<open>
  Where C5 fails without these restrictions, with one song, a 2x2 grid and a ticket in
  the store. One ticket requested: the message is "Catalog must have at least 4 songs to
  generate a 2x2 ticket.", in which the catalog size 1 does not occur. No ticket
  requested: the loop body never runs, no message is shown, and the store and the game
  catalog are overwritten.
\<close>

lemma stale_alerts:
  "alerts (generateTickets identity_source 1 stale_state)
   = [''Catalog must have at least 4 songs to generate a 2x2 ticket.'']"
  by (simp add: generateTickets_def songsToUse_of_def stale_state_def Let_def
      calculateSafeMax_def tickets_loop.simps attempts_loop.simps maxAttempts_def
      generateTicket_def toString_digits identity_source_def)

lemma stale_zero:
  "generateTickets identity_source 0 stale_state =
   stale_state\<lparr>tickets := [], gameCatalog := [mk_song ''a'']\<rparr>"
  by (simp add: generateTickets_def songsToUse_of_def stale_state_def Let_def
      calculateSafeMax_def tickets_loop.simps)

theorem short_catalog_claim_fails:
  "int (length (songsToUse_of stale_state)) < gridSize stale_state * gridSize stale_state \<and>
   \<not> mentions (last (alerts (generateTickets identity_source 1 stale_state)))
        (toString (int (length (songsToUse_of stale_state)))) \<and>
   alerts (generateTickets identity_source 0 stale_state) = alerts stale_state \<and>
   tickets stale_state = [(''1'', ticket_abcd)] \<and>
   tickets (generateTickets identity_source 0 stale_state) = [] \<and>
   gameCatalog stale_state = [] \<and>
   gameCatalog (generateTickets identity_source 0 stale_state) = [mk_song ''a'']"
  by (simp add: stale_alerts stale_zero) (simp add: songsToUse_of_def stale_state_def toString_digits)





end
